theory Spec2Isabelle
  imports
    Main
    "HOL-Library.Extended_Nat"
    "HOL-Library.Char_ord"
    "HOL-Library.List_Lexorder"
begin

section \<open>Time parsing (lib/time-parser.ts)\<close>

text \<open>
  JavaScript strings are modelled as \<^typ>\<open>string\<close>.  The regular expressions of the
  parser only look at ASCII digits, the colon, ASCII letters and the underscore, so every
  other character is simply a character that matches none of them.  Minute values are
  JavaScript numbers that only ever hold integers here; they are modelled as \<^typ>\<open>int\<close>.
\<close>

definition isDigit :: "char \<Rightarrow> bool" where
  "isDigit c = (c \<in> set ''0123456789'')"

definition isWordChar :: "char \<Rightarrow> bool" where
  "isWordChar c =
     (c \<in> set ''abcdefghijklmnopqrstuvwxyzABCDEFGHIJKLMNOPQRSTUVWXYZ0123456789_'')"

definition digitVal :: "char \<Rightarrow> int" where
  "digitVal c = int (of_char c) - 48"

text \<open>\<open>parseInt\<close> on a string of decimal digits.\<close>

definition parseInt :: "string \<Rightarrow> int" where
  "parseInt ds = foldl (\<lambda>n c. 10 * n + digitVal c) 0 ds"

text \<open>
  \<open>Array.from(timeSlot.matchAll(/(\d{1,2}):(\d{2})/g))\<close>: the successive leftmost matches,
  each given by its two capture groups.  At a position the greedy \<open>\d{1,2}\<close> first takes two
  digits; the one-digit alternative can only succeed when the second character is the colon.
  After a match the scan goes on behind it, otherwise one character further.
\<close>

fun timeMatches :: "string \<Rightarrow> (string \<times> string) list" where
  "timeMatches (a # b # c # d # e # rest) =
     (if isDigit a \<and> isDigit b \<and> c = CHR '':'' \<and> isDigit d \<and> isDigit e
      then ([a, b], [d, e]) # timeMatches rest
      else if isDigit a \<and> b = CHR '':'' \<and> isDigit c \<and> isDigit d
      then ([a], [c, d]) # timeMatches (e # rest)
      else timeMatches (b # c # d # e # rest))"
| "timeMatches [a, b, c, d] =
     (if isDigit a \<and> b = CHR '':'' \<and> isDigit c \<and> isDigit d
      then [([a], [c, d])] else [])"
| "timeMatches _ = []"

text \<open>
  \<open>Array.from(timeSlot.matchAll(/\b(am|pm|AM|PM)\b/gi))\<close>, each match already upper-cased
  as \<open>parseTime\<close> does before comparing.  The flag says whether the character before the
  current position is a word character (\<open>\b\<close> in front of a letter needs it not to be).
\<close>

fun ampmMatches :: "bool \<Rightarrow> string \<Rightarrow> string list" where
  "ampmMatches prevWord (a # b # rest) =
     (if \<not> prevWord \<and> a \<in> set ''aApP'' \<and> b \<in> set ''mM''
         \<and> (case rest of [] \<Rightarrow> True | c # _ \<Rightarrow> \<not> isWordChar c)
      then (if a \<in> set ''pP'' then ''PM'' else ''AM'') # ampmMatches True rest
      else ampmMatches (isWordChar a) (b # rest))"
| "ampmMatches prevWord _ = []"

definition parseTime :: "string \<times> string \<Rightarrow> string \<Rightarrow> nat \<Rightarrow> int" where
  "parseTime m timeSlot matchIndex =
     (let hour = parseInt (fst m);
          minute = parseInt (snd m);
          ampms = ampmMatches False timeSlot;
          hour24 =
            (if length ampms > 0 then
               (let ampm = ampms ! (min matchIndex (length ampms - 1)) in
                if ampm = ''PM'' \<and> hour \<noteq> 12 then hour + 12
                else if ampm = ''AM'' \<and> hour = 12 then 0
                else hour)
             else if hour \<ge> 8 \<and> hour \<le> 11 then hour
             else if hour = 12 then 12
             else if hour \<ge> 1 \<and> hour \<le> 7 then hour + 12
             else hour)
      in hour24 * 60 + minute)"

record TimeRange =
  start :: int
  end' :: int

definition parseTimeSlot :: "string \<Rightarrow> TimeRange" where
  "parseTimeSlot timeSlot =
     (if timeSlot = [] \<or> timeSlot = ''Unknown'' then \<lparr>start = 9999, end' = 9999\<rparr>
      else
        (let matches = timeMatches timeSlot in
         if length matches = 0 then \<lparr>start = 9999, end' = 9999\<rparr>
         else
           (let startMinutes = parseTime (matches ! 0) timeSlot 0;
                endMinutes = (if length matches > 1 then parseTime (matches ! 1) timeSlot 1
                              else startMinutes + 50)
            in \<lparr>start = startMinutes, end' = endMinutes\<rparr>)))"

definition doTimeSlotsOverlap :: "string \<Rightarrow> string \<Rightarrow> bool" where
  "doTimeSlotsOverlap slot1 slot2 =
     (let time1 = parseTimeSlot slot1;
          time2 = parseTimeSlot slot2
      in if start time1 = 9999 \<or> start time2 = 9999 then False
         else \<not> (end' time1 \<le> start time2 \<or> end' time2 \<le> start time1))"

text \<open>Ranges of the parsed numbers of one match: one or two digits each.\<close>

definition wfMatch :: "string \<times> string \<Rightarrow> bool" where
  "wfMatch m = (0 \<le> parseInt (fst m) \<and> parseInt (fst m) \<le> 99
              \<and> 0 \<le> parseInt (snd m) \<and> parseInt (snd m) \<le> 99)"

section \<open>Strings and object literals used as dictionaries\<close>

definition toLowerCase :: "string \<Rightarrow> string" where
  "toLowerCase s =
     map (\<lambda>c. if c \<in> set ''ABCDEFGHIJKLMNOPQRSTUVWXYZ''
              then char_of (of_char c + (32::nat)) else c) s"

fun startsWith :: "string \<Rightarrow> string \<Rightarrow> bool" where
  "startsWith s [] = True"
| "startsWith [] (p # ps) = False"
| "startsWith (c # cs) (p # ps) = (c = p \<and> startsWith cs ps)"

fun includes' :: "string \<Rightarrow> string \<Rightarrow> bool" where
  "includes' [] sub = (sub = [])"
| "includes' (c # cs) sub = (startsWith (c # cs) sub \<or> includes' cs sub)"

fun join :: "string list \<Rightarrow> string \<Rightarrow> string" where
  "join [] sep = []"
| "join [x] sep = x"
| "join (x # y # ys) sep = x @ sep @ join (y # ys) sep"

text \<open>Template literals print a number in decimal; \<open>Infinity\<close> prints as itself.\<close>

fun showNat :: "nat \<Rightarrow> string" where
  "showNat n =
     (if n < 10 then [''0123456789'' ! n]
      else showNat (n div 10) @ [''0123456789'' ! (n mod 10)])"


text \<open>
  An object literal used as a dictionary is the list of its own properties in the order of
  their creation.  Assigning to an existing key keeps its place.  \<open>Object.keys\<close>,
  \<open>Object.values\<close>, \<open>Object.entries\<close> and the spread operator list first the keys that
  are array indices (canonical decimal numerals below \<open>2^32 - 1\<close>) in ascending numeric
  order, then all other keys in creation order.
\<close>

type_synonym 'v obj = "(string \<times> 'v) list"

fun obj_set :: "'v obj \<Rightarrow> string \<Rightarrow> 'v \<Rightarrow> 'v obj" where
  "obj_set [] k v = [(k, v)]"
| "obj_set ((k', v') # ob) k v =
     (if k' = k then (k, v) # ob else (k', v') # obj_set ob k v)"

definition isArrayIndex :: "string \<Rightarrow> bool" where
  "isArrayIndex k =
     (k \<noteq> [] \<and> list_all isDigit k \<and> (k = ''0'' \<or> hd k \<noteq> CHR ''0'')
      \<and> parseInt k < 4294967295)"

definition obj_entries :: "'v obj \<Rightarrow> (string \<times> 'v) list" where
  "obj_entries ob =
     sort_key (\<lambda>e. parseInt (fst e)) (filter (\<lambda>e. isArrayIndex (fst e)) ob)
     @ filter (\<lambda>e. \<not> isArrayIndex (fst e)) ob"



text \<open>
  Every object written \<open>{}\<close> inherits the properties of \<open>Object.prototype\<close>.  Their names
  are those of the language standard with its annex for web browsers, as Node.js has them.
  The inherited values are built-in functions, and \<open>Object.prototype\<close> itself under
  \<open>__proto__\<close>: all of them are truthy, none has the array method \<open>push\<close>, and none can be
  spread.
\<close>

definition inheritedNames :: "string list" where
  "inheritedNames =
     [''constructor'', ''__defineGetter__'', ''__defineSetter__'', ''hasOwnProperty'',
      ''__lookupGetter__'', ''__lookupSetter__'', ''isPrototypeOf'', ''propertyIsEnumerable'',
      ''toString'', ''valueOf'', ''__proto__'', ''toLocaleString'']"

text \<open>
  Reading \<open>m[k]\<close>: an own property is found first, then an inherited one, otherwise the
  value is \<open>undefined\<close>.
\<close>

datatype 'v lookup = Own 'v | Inherited | Absent

definition obj_get :: "'v obj \<Rightarrow> string \<Rightarrow> 'v lookup" where
  "obj_get ob k =
     (case map_of ob k of
        Some v \<Rightarrow> Own v
      | None \<Rightarrow> if k \<in> set inheritedNames then Inherited else Absent)"

text \<open>
  What a function of the program does instead of returning.  \<open>TypeError\<close> is the exception
  of that name.  \<open>BuiltinObjectAccess\<close> stands for the case where the program goes on with a
  built-in object that it found under an inherited name and reads, and possibly writes, one
  of its properties: what follows depends on the properties of the built-in objects and
  changes state shared by the whole program.  The model stops there and no statement below
  is about that case.  Up to that point the built-in objects are as they are when the
  program starts: none of them has an enumerable own property.
\<close>

datatype jsError = TypeError | BuiltinObjectAccess

text \<open>
  The idiom \<open>if (!m[k]) m[k] = []; m[k].push(x)\<close>.  An own array is never falsy.  An
  inherited value is truthy, so no array is stored, and calling its missing \<open>push\<close> throws.
\<close>

definition obj_push :: "'a list obj \<Rightarrow> string \<Rightarrow> 'a \<Rightarrow> jsError + 'a list obj" where
  "obj_push m k x =
     (case obj_get m k of
        Absent \<Rightarrow> Inr (obj_set (obj_set m k []) k ([] @ [x]))
      | Own xs \<Rightarrow> Inr (obj_set m k (xs @ [x]))
      | Inherited \<Rightarrow> Inl TypeError)"

text \<open>A \<open>forEach\<close> whose body updates a state and may throw.\<close>

fun foldE :: "('a \<Rightarrow> 's \<Rightarrow> jsError + 's) \<Rightarrow> 'a list \<Rightarrow> 's \<Rightarrow> jsError + 's" where
  "foldE f [] s = Inr s"
| "foldE f (x # xs) s = (case f x s of Inl e \<Rightarrow> Inl e | Inr s' \<Rightarrow> foldE f xs s')"

section \<open>Data model (lib/types.ts)\<close>

datatype SessionType = Class | Lab

record Course =
  id' :: string
  name :: string
  department :: string
  "section" :: string
  batch :: string
  colorCode :: string
  fullEntry :: string
  day :: string

record Clash =
  course1 :: string
  course2 :: string
  day :: string
  timeSlot1 :: string
  timeSlot2 :: string
  section1 :: string
  section2 :: string

record EmbeddedTime =
  cleanedName :: string
  timeSlot :: string
  hasEmbeddedTime :: bool

record TimetableSession =
  id' :: string
  day :: string
  timeSlot :: string
  room :: string
  sessionType :: SessionType
  courseName :: string
  "section" :: string
  batch :: string
  department :: string
  rank :: int
  colorCode :: string
  startMinutes :: int
  endMinutes :: int



section \<open>Building a session during extraction (lib/timetable-extractor.ts)\<close>

text \<open>
  The two extraction passes read the sheet, find the cells of a course and build one session
  per cell.  The part modelled here starts where the cell has been found: the result of
  \<open>parseEmbeddedTime\<close> on the cell text, the row of lab times (when the sheet has one) and the
  row of lecture times, each as the list of the formatted values of its cells with the empty
  string for a cell without one, are the inputs.
\<close>

definition cellTime :: "string list \<Rightarrow> nat \<Rightarrow> string" where
  "cellTime timeValues colIdx =
     (if colIdx < length timeValues \<and> timeValues ! colIdx \<noteq> [] then timeValues ! colIdx
      else ''Unknown'')"

definition resolveTimeSlot ::
  "EmbeddedTime \<Rightarrow> bool \<Rightarrow> string list option \<Rightarrow> string list \<Rightarrow> nat \<Rightarrow> string" where
  "resolveTimeSlot emb isLab labTimeRow timeRow colIdx =
     (if hasEmbeddedTime emb then EmbeddedTime.timeSlot emb
      else (case (isLab, labTimeRow) of
              (True, Some labTimeValues) \<Rightarrow> cellTime labTimeValues colIdx
            | _ \<Rightarrow> cellTime timeRow colIdx))"

definition sessionKind :: "bool \<Rightarrow> string \<Rightarrow> SessionType" where
  "sessionKind isLab cName = (if isLab \<or> includes' (toLowerCase cName) ''lab'' then Lab else Class)"

text \<open>The session literal of \<open>getTimetableForCourses\<close>.\<close>

definition courseSession ::
  "string \<Rightarrow> nat \<Rightarrow> nat \<Rightarrow> bool \<Rightarrow> string \<Rightarrow> string \<Rightarrow> int \<Rightarrow> Course \<Rightarrow> EmbeddedTime
   \<Rightarrow> string list option \<Rightarrow> string list \<Rightarrow> TimetableSession" where
  "courseSession sheetName colIdx rowIdx isLab roomText cellColor colRank selectedCourse emb
     labTimeRow timeRow =
     (let slot = resolveTimeSlot emb isLab labTimeRow timeRow colIdx;
          cName = (if hasEmbeddedTime emb then cleanedName emb else name selectedCourse);
          parsed = parseTimeSlot slot
      in \<lparr>id' = sheetName @ ''_'' @ showNat colIdx @ ''_'' @ showNat rowIdx @ ''_''
                  @ Course.id' selectedCourse,
          day = sheetName,
          timeSlot = slot,
          room = roomText,
          sessionType = sessionKind isLab cName,
          courseName = cName,
          section = Course.section selectedCourse,
          batch = Course.batch selectedCourse,
          department = Course.department selectedCourse,
          rank = colRank,
          colorCode = cellColor,
          startMinutes = start parsed,
          endMinutes = end' parsed\<rparr>)"

text \<open>
  The session literal of \<open>getAllSessionsForBatch\<close>; the section and the cleaned course name
  have been cut out of the cell text by then.
\<close>

definition batchSession ::
  "string \<Rightarrow> nat \<Rightarrow> nat \<Rightarrow> bool \<Rightarrow> string \<Rightarrow> string \<Rightarrow> int \<Rightarrow> string \<Rightarrow> string \<Rightarrow> string
   \<Rightarrow> string \<Rightarrow> EmbeddedTime \<Rightarrow> string list option \<Rightarrow> string list \<Rightarrow> TimetableSession" where
  "batchSession sheetName colIdx rowIdx isLab roomText cellColor colRank batchName dept sec cName
     emb labTimeRow timeRow =
     (let slot = resolveTimeSlot emb isLab labTimeRow timeRow colIdx;
          parsed = parseTimeSlot slot
      in \<lparr>id' = sheetName @ ''_'' @ showNat colIdx @ ''_'' @ showNat rowIdx @ ''_'' @ sec,
          day = sheetName,
          timeSlot = slot,
          room = roomText,
          sessionType = sessionKind isLab cName,
          courseName = cName,
          section = sec,
          batch = batchName,
          department = dept,
          rank = colRank,
          colorCode = cellColor,
          startMinutes = start parsed,
          endMinutes = end' parsed\<rparr>)"

section \<open>Clash detection (lib/clash-detector.ts)\<close>

definition doSessionsOverlap :: "TimetableSession \<Rightarrow> TimetableSession \<Rightarrow> bool" where
  "doSessionsOverlap session1 session2 =
     (if startMinutes session1 \<noteq> 9999 \<and> startMinutes session2 \<noteq> 9999
      then \<not> (endMinutes session1 \<le> startMinutes session2
              \<or> endMinutes session2 \<le> startMinutes session1)
      else doTimeSlotsOverlap (timeSlot session1) (timeSlot session2))"

text \<open>
  \<open>[c1, c2, day].sort().join('_')\<close>: the default sort compares strings by their code units,
  which is the lexicographic order on \<^typ>\<open>string\<close>.
\<close>

definition clashKey :: "string \<Rightarrow> string \<Rightarrow> string \<Rightarrow> string" where
  "clashKey c1 c2 d = join (sort [c1, c2, d]) ''_''"

definition mkClash :: "TimetableSession \<Rightarrow> TimetableSession \<Rightarrow> Clash" where
  "mkClash session1 session2 =
     \<lparr>course1 = courseName session1,
      course2 = courseName session2,
      day = day session1,
      timeSlot1 = timeSlot session1,
      timeSlot2 = timeSlot session2,
      section1 = section session1,
      section2 = section session2\<rparr>"

text \<open>
  The state of the two nested loops is the array \<open>clashes\<close> (here \<open>found\<close>) and the set
  \<open>seenClashes\<close>.
  The inner loop runs \<open>session2\<close> over the sessions behind \<open>session1\<close>.
\<close>

fun detectInner ::
  "TimetableSession \<Rightarrow> TimetableSession list \<Rightarrow> Clash list \<times> string set
   \<Rightarrow> Clash list \<times> string set" where
  "detectInner session1 [] st = st"
| "detectInner session1 (session2 # rest) (found, seenClashes) =
     (if courseName session1 = courseName session2
      then detectInner session1 rest (found, seenClashes)
      else if day session1 = day session2 \<and> doSessionsOverlap session1 session2
      then (let k = clashKey (courseName session1) (courseName session2) (day session1)
            in if k \<notin> seenClashes
               then detectInner session1 rest
                      (found @ [mkClash session1 session2], insert k seenClashes)
               else detectInner session1 rest (found, seenClashes))
      else detectInner session1 rest (found, seenClashes))"

fun detectOuter ::
  "TimetableSession list \<Rightarrow> Clash list \<times> string set \<Rightarrow> Clash list \<times> string set" where
  "detectOuter [] st = st"
| "detectOuter (session1 # rest) st = detectOuter rest (detectInner session1 rest st)"

definition detectClashes :: "TimetableSession list \<Rightarrow> Clash list" where
  "detectClashes sessions = fst (detectOuter sessions ([], {}))"

subsection \<open>Normalising the sessions of a schedule\<close>

definition EXPECTED_LABS_PER_WEEK :: nat where
  "EXPECTED_LABS_PER_WEEK = 1"

definition EXPECTED_CLASSES_PER_WEEK :: nat where
  "EXPECTED_CLASSES_PER_WEEK = 2"

definition showSessionType :: "SessionType \<Rightarrow> string" where
  "showSessionType t = (case t of Class \<Rightarrow> ''Class'' | Lab \<Rightarrow> ''Lab'')"

fun removeDuplicateDaysLoop ::
  "TimetableSession list \<Rightarrow> string set \<Rightarrow> TimetableSession list" where
  "removeDuplicateDaysLoop [] seenDays = []"
| "removeDuplicateDaysLoop (session # rest) seenDays =
     (let k = day session @ ''_'' @ showSessionType (sessionType session)
      in if k \<in> seenDays then removeDuplicateDaysLoop rest seenDays
         else session # removeDuplicateDaysLoop rest (insert k seenDays))"

definition removeDuplicateDays :: "TimetableSession list \<Rightarrow> TimetableSession list" where
  "removeDuplicateDays sessions = removeDuplicateDaysLoop sessions {}"

text \<open>What one course contributes: the body of the \<open>forEach\<close> over the entries.\<close>

definition courseFiltered :: "string \<Rightarrow> TimetableSession list \<Rightarrow> TimetableSession list" where
  "courseFiltered cName courseSessions =
     (let isLabCourse = includes' (toLowerCase cName) ''lab'';
          labSessions = filter (\<lambda>s. sessionType s = Lab) courseSessions;
          classSessions = filter (\<lambda>s. sessionType s = Class) courseSessions;
          uniqueLabSessions = removeDuplicateDays labSessions;
          uniqueClassSessions = removeDuplicateDays classSessions
      in if isLabCourse then take EXPECTED_LABS_PER_WEEK uniqueLabSessions
         else take EXPECTED_CLASSES_PER_WEEK uniqueClassSessions
              @ take EXPECTED_LABS_PER_WEEK uniqueLabSessions)"

definition groupByCourse :: "TimetableSession list \<Rightarrow> jsError + TimetableSession list obj" where
  "groupByCourse sessions =
     foldE (\<lambda>session m. obj_push m (courseName session) session) sessions []"

definition filterValidSessions :: "TimetableSession list \<Rightarrow> jsError + TimetableSession list" where
  "filterValidSessions sessions =
     (case groupByCourse sessions of
        Inl e \<Rightarrow> Inl e
      | Inr courseSessionsMap \<Rightarrow>
          Inr (fold (\<lambda>e filteredSessions. filteredSessions @ courseFiltered (fst e) (snd e))
                 (obj_entries courseSessionsMap) []))"

subsection \<open>Gap score\<close>





subsection \<open>Search for the best combination of sections\<close>





subsection \<open>\<open>findOptimalSchedule\<close>\<close>









section \<open>The same computation on own properties\<close>

text \<open>
  The functions of this section are not the program.  Each is the function of the same name
  without the suffix, on the assumption that every key that is looked up is an own property
  or absent, so that nothing throws.  The properties below are first proved for them; the
  section on the program and the computation on own properties says when the program
  computes the same.
\<close>

definition own_get :: "'v obj \<Rightarrow> string \<Rightarrow> 'v option" where
  "own_get ob k = map_of ob k"

definition own_push :: "'a list obj \<Rightarrow> string \<Rightarrow> 'a \<Rightarrow> 'a list obj" where
  "own_push m k x =
     (let m1 = (case own_get m k of None \<Rightarrow> obj_set m k [] | Some _ \<Rightarrow> m)
      in obj_set m1 k ((case own_get m1 k of None \<Rightarrow> [] | Some xs \<Rightarrow> xs) @ [x]))"

definition groupByCourseOwn :: "TimetableSession list \<Rightarrow> TimetableSession list obj" where
  "groupByCourseOwn sessions = fold (\<lambda>session m. own_push m (courseName session) session) sessions []"

definition filterValidSessionsOwn :: "TimetableSession list \<Rightarrow> TimetableSession list" where
  "filterValidSessionsOwn sessions =
     fold (\<lambda>e filteredSessions. filteredSessions @ courseFiltered (fst e) (snd e))
       (obj_entries (groupByCourseOwn sessions)) []"









section \<open>Notions used to state the properties\<close>

text \<open>
  The pairs \<open>(sessions[i], sessions[j])\<close> with \<open>i < j\<close> in the order in which the two loops
  of \<open>detectClashes\<close> visit them.
\<close>

fun sessionPairs :: "'a list \<Rightarrow> ('a \<times> 'a) list" where
  "sessionPairs [] = []"
| "sessionPairs (x # xs) = map (Pair x) xs @ sessionPairs xs"

text \<open>A pair that reaches the duplicate check: different courses, same day, overlapping.\<close>

definition clashingPair :: "TimetableSession \<times> TimetableSession \<Rightarrow> bool" where
  "clashingPair p =
     (courseName (fst p) \<noteq> courseName (snd p) \<and> day (fst p) = day (snd p)
      \<and> doSessionsOverlap (fst p) (snd p))"

definition pairKey :: "TimetableSession \<times> TimetableSession \<Rightarrow> string" where
  "pairKey p = clashKey (courseName (fst p)) (courseName (snd p)) (day (fst p))"

text \<open>Two pairs with the same day and the same two course names, in either order.\<close>

definition sameTriple ::
  "TimetableSession \<times> TimetableSession \<Rightarrow> TimetableSession \<times> TimetableSession \<Rightarrow> bool" where
  "sameTriple p q =
     (day (fst p) = day (fst q)
      \<and> (courseName (fst p) = courseName (fst q) \<and> courseName (snd p) = courseName (snd q)
         \<or> courseName (fst p) = courseName (snd q) \<and> courseName (snd p) = courseName (fst q)))"

text \<open>The elements of a list whose key is new, from left to right.\<close>

fun firstByKey :: "('a \<Rightarrow> 'k) \<Rightarrow> 'a list \<Rightarrow> 'k set \<Rightarrow> 'a list" where
  "firstByKey f [] seen = []"
| "firstByKey f (x # xs) seen =
     (if f x \<in> seen then firstByKey f xs seen else x # firstByKey f xs (insert (f x) seen))"

text \<open>The order in which the keys of an object are listed, given their creation order.\<close>

definition jsKeyOrder :: "string list \<Rightarrow> string list" where
  "jsKeyOrder ks =
     sort_key parseInt (filter isArrayIndex ks) @ filter (\<lambda>k. \<not> isArrayIndex k) ks"

text \<open>The key under which \<open>removeDuplicateDays\<close> remembers a session.\<close>

definition dayKey :: "TimetableSession \<Rightarrow> string" where
  "dayKey s = day s @ ''_'' @ showSessionType (sessionType s)"










text \<open>
  A plain name is a string that no object inherits as a property name.  The sessions of the
  selected courses have plain keys when their course names and sections are plain, and plain
  days when their days are.
\<close>

definition plainName :: "string \<Rightarrow> bool" where
  "plainName k = (k \<notin> set inheritedNames)"




text \<open>
  A session as the extraction builds it, for the concrete instances below: the minute fields
  are those of \<open>parseTimeSlot\<close> on the time-slot text.
\<close>

definition exampleSession ::
  "string \<Rightarrow> string \<Rightarrow> string \<Rightarrow> string \<Rightarrow> SessionType \<Rightarrow> TimetableSession" where
  "exampleSession cName sec d slot kind =
     \<lparr>id' = d @ ''_'' @ cName @ ''_'' @ sec,
      day = d,
      timeSlot = slot,
      room = ''Unknown'',
      sessionType = kind,
      courseName = cName,
      section = sec,
      batch = ''BS-CS-1'',
      department = ''CS'',
      rank = 999,
      colorCode = ''0.800.200.10'',
      startMinutes = start (parseTimeSlot slot),
      endMinutes = end' (parseTimeSlot slot)\<rparr>"


text \<open>
  Six sessions of two courses: the course \<open>OOP\<close> has two classes on Monday, two more
  classes and a lab.
\<close>

definition exampleClasses :: "TimetableSession list" where
  "exampleClasses =
     [exampleSession ''OOP'' ''A'' ''Monday'' ''09:00-09:50'' Class,
      exampleSession ''OOP'' ''A'' ''Monday'' ''11:00-11:50'' Class,
      exampleSession ''101'' ''A'' ''Tuesday'' ''09:00-09:50'' Class,
      exampleSession ''OOP'' ''A'' ''Wednesday'' ''09:00-09:50'' Class,
      exampleSession ''OOP'' ''A'' ''Thursday'' ''2:00-4:45'' Lab,
      exampleSession ''OOP'' ''A'' ''Friday'' ''09:00-09:50'' Class]"


section \<open>Properties of the time parser\<close>

lemma digitVal_range: "isDigit c \<Longrightarrow> 0 \<le> digitVal c \<and> digitVal c \<le> 9"
  by (auto simp: isDigit_def digitVal_def)

lemma wfMatch_one: "isDigit a \<Longrightarrow> isDigit c \<Longrightarrow> isDigit d \<Longrightarrow> wfMatch ([a], [c, d])"
  using digitVal_range [of a] digitVal_range [of c] digitVal_range [of d]
  by (simp add: wfMatch_def parseInt_def)

lemma wfMatch_two:
  "isDigit a \<Longrightarrow> isDigit b \<Longrightarrow> isDigit c \<Longrightarrow> isDigit d \<Longrightarrow> wfMatch ([a, b], [c, d])"
  using digitVal_range [of a] digitVal_range [of b] digitVal_range [of c] digitVal_range [of d]
  by (simp add: wfMatch_def parseInt_def)

lemma timeMatches_wf: "m \<in> set (timeMatches s) \<Longrightarrow> wfMatch m"
proof (induction s rule: timeMatches.induct)
  case (1 a b c d e rest)
  then show ?case
    by (auto simp: wfMatch_one wfMatch_two split: if_splits)
next
  case (2 a b c d)
  then show ?case
    by (auto simp: wfMatch_one split: if_splits)
qed simp_all

lemma parseTime_range:
  assumes "wfMatch m"
  shows "0 \<le> parseTime m s i \<and> parseTime m s i \<le> 6759"
  using assms unfolding wfMatch_def parseTime_def Let_def by auto

lemma timeMatches_Unknown: "timeMatches ''Unknown'' = []"
  by (simp add: isDigit_def)

lemma parseTimeSlot_unknown:
  "timeMatches s = [] \<Longrightarrow> parseTimeSlot s = \<lparr>start = 9999, end' = 9999\<rparr>"
  by (simp add: parseTimeSlot_def)

lemma parseTimeSlot_known:
  assumes "timeMatches s = m # ms"
  shows "start (parseTimeSlot s) = parseTime m s 0"
    and "end' (parseTimeSlot s)
         = (case ms of [] \<Rightarrow> parseTime m s 0 + 50 | m' # _ \<Rightarrow> parseTime m' s 1)"
proof -
  have ne: "s \<noteq> []" "s \<noteq> ''Unknown''"
    using assms timeMatches_Unknown by auto
  show "start (parseTimeSlot s) = parseTime m s 0"
    using assms ne by (simp add: parseTimeSlot_def Let_def)
  show "end' (parseTimeSlot s)
        = (case ms of [] \<Rightarrow> parseTime m s 0 + 50 | m' # _ \<Rightarrow> parseTime m' s 1)"
    using assms ne by (cases ms) (simp_all add: parseTimeSlot_def Let_def)
qed

lemma parseTimeSlot_known_range:
  assumes "timeMatches s \<noteq> []"
  shows "0 \<le> start (parseTimeSlot s) \<and> start (parseTimeSlot s) \<le> 6759
       \<and> 0 \<le> end' (parseTimeSlot s) \<and> end' (parseTimeSlot s) \<le> 6809"
proof -
  obtain m ms where ms: "timeMatches s = m # ms"
    using assms by (cases "timeMatches s") auto
  have wm: "wfMatch m"
    using ms timeMatches_wf [of m s] by simp
  have st: "start (parseTimeSlot s) = parseTime m s 0"
    using parseTimeSlot_known(1) [OF ms] .
  show ?thesis
  proof (cases ms)
    case Nil
    then have "end' (parseTimeSlot s) = parseTime m s 0 + 50"
      using parseTimeSlot_known(2) [OF ms] by simp
    then show ?thesis
      using st parseTime_range [OF wm, of s 0] by simp
  next
    case (Cons m' ms')
    then have wm': "wfMatch m'"
      using ms timeMatches_wf [of m' s] by simp
    have "end' (parseTimeSlot s) = parseTime m' s 1"
      using parseTimeSlot_known(2) [OF ms] Cons by simp
    then show ?thesis
      using st parseTime_range [OF wm, of s 0] parseTime_range [OF wm', of s 1] by simp
  qed
qed

lemma start_sentinel_iff: "start (parseTimeSlot s) = 9999 \<longleftrightarrow> timeMatches s = []"
  using parseTimeSlot_unknown [of s] parseTimeSlot_known_range [of s] by fastforce

lemma end_sentinel_iff: "end' (parseTimeSlot s) = 9999 \<longleftrightarrow> timeMatches s = []"
  using parseTimeSlot_unknown [of s] parseTimeSlot_known_range [of s] by fastforce

lemma pair_sentinel_iff:
  "parseTimeSlot s = \<lparr>start = 9999, end' = 9999\<rparr> \<longleftrightarrow> timeMatches s = []"
  using start_sentinel_iff [of s] parseTimeSlot_unknown [of s] by auto

lemma parseTime_no_marker:
  assumes "ampmMatches False s = []"
  shows "parseTime m s i =
           (if 8 \<le> parseInt (fst m) \<and> parseInt (fst m) \<le> 11 then parseInt (fst m)
            else if parseInt (fst m) = 12 then 12
            else if 1 \<le> parseInt (fst m) \<and> parseInt (fst m) \<le> 7 then parseInt (fst m) + 12
            else parseInt (fst m)) * 60 + parseInt (snd m)"
  using assms by (simp add: parseTime_def Let_def)

text \<open>
  C2.  \<open>doTimeSlotsOverlap a b\<close> is false when either slot parses to the unknown pair
  \<open>(9999, 9999)\<close>; otherwise it is true exactly when not (\<open>endA \<le> startB\<close> or
  \<open>endB \<le> startA\<close>).  Slots that only touch, \<open>09:00-09:50\<close> and \<open>09:50-10:40\<close>, do not overlap.
\<close>

theorem doTimeSlotsOverlap_half_open:
  "(parseTimeSlot a = \<lparr>start = 9999, end' = 9999\<rparr>
      \<or> parseTimeSlot b = \<lparr>start = 9999, end' = 9999\<rparr>
      \<longrightarrow> doTimeSlotsOverlap a b = False)
   \<and> (parseTimeSlot a \<noteq> \<lparr>start = 9999, end' = 9999\<rparr>
        \<and> parseTimeSlot b \<noteq> \<lparr>start = 9999, end' = 9999\<rparr>
      \<longrightarrow> doTimeSlotsOverlap a b =
            (\<not> (end' (parseTimeSlot a) \<le> start (parseTimeSlot b)
                \<or> end' (parseTimeSlot b) \<le> start (parseTimeSlot a))))
   \<and> doTimeSlotsOverlap ''09:00-09:50'' ''09:50-10:40'' = False"
proof -
  have ex: "doTimeSlotsOverlap ''09:00-09:50'' ''09:50-10:40'' = False"
    by code_simp
  show ?thesis
    using ex pair_sentinel_iff [of a] pair_sentinel_iff [of b]
      start_sentinel_iff [of a] start_sentinel_iff [of b]
    by (auto simp: doTimeSlotsOverlap_def Let_def)
qed

theorem doTimeSlotsOverlap_half_open_witness:
  "parseTimeSlot ''Unknown'' = \<lparr>start = 9999, end' = 9999\<rparr>
   \<and> doTimeSlotsOverlap ''Unknown'' ''09:00-10:45'' = False
   \<and> parseTimeSlot ''09:00-10:45'' = \<lparr>start = 540, end' = 645\<rparr>
   \<and> parseTimeSlot ''10:00-11:00'' = \<lparr>start = 600, end' = 660\<rparr>
   \<and> doTimeSlotsOverlap ''09:00-10:45'' ''10:00-11:00'' = True"
proof -
  have p0: "parseTimeSlot ''Unknown'' = \<lparr>start = 9999, end' = 9999\<rparr>"
    by code_simp
  have p1: "parseTimeSlot ''09:00-10:45'' = \<lparr>start = 540, end' = 645\<rparr>"
    by code_simp
  have p2: "parseTimeSlot ''10:00-11:00'' = \<lparr>start = 600, end' = 660\<rparr>"
    by code_simp
  show ?thesis
    using doTimeSlotsOverlap_half_open [of "''Unknown''" "''09:00-10:45''"]
      doTimeSlotsOverlap_half_open [of "''09:00-10:45''" "''10:00-11:00''"] p0 p1 p2
    by simp
qed

text \<open>
  C10.  For every input string the start of \<open>parseTimeSlot\<close> is 9999 exactly when its end
  is 9999.  So a start different from 9999 means that the text had a time token and that
  both endpoints are parsed times, which lie below 9999.
\<close>

theorem parseTimeSlot_sentinel_both:
  "(start (parseTimeSlot s) = 9999 \<longleftrightarrow> end' (parseTimeSlot s) = 9999)
   \<and> (start (parseTimeSlot s) \<noteq> 9999 \<longrightarrow>
        timeMatches s \<noteq> []
        \<and> 0 \<le> start (parseTimeSlot s) \<and> start (parseTimeSlot s) < 9999
        \<and> 0 \<le> end' (parseTimeSlot s) \<and> end' (parseTimeSlot s) < 9999)"
  using start_sentinel_iff [of s] end_sentinel_iff [of s] parseTimeSlot_known_range [of s]
  by auto

theorem parseTimeSlot_sentinel_both_witness:
  "start (parseTimeSlot ''11:30'') = 690 \<and> end' (parseTimeSlot ''11:30'') < 9999
   \<and> timeMatches ''11:30'' \<noteq> []
   \<and> start (parseTimeSlot ''no time'') = 9999 \<and> end' (parseTimeSlot ''no time'') = 9999"
proof -
  have p1: "start (parseTimeSlot ''11:30'') = 690"
    by code_simp
  have p2: "start (parseTimeSlot ''no time'') = 9999"
    by code_simp
  have a: "timeMatches ''11:30'' \<noteq> [] \<and> end' (parseTimeSlot ''11:30'') < 9999"
    using parseTimeSlot_sentinel_both [of "''11:30''"] p1
    by (simp del: timeMatches.simps)
  have b: "end' (parseTimeSlot ''no time'') = 9999"
    using parseTimeSlot_sentinel_both [of "''no time''"] p2
    by (simp del: timeMatches.simps)
  show ?thesis
    using a b p1 p2 by (simp del: timeMatches.simps)
qed

text \<open>
  C7.  For a time string with at least one \<open>H:MM\<close> token and no AM/PM marker, the hour of
  the first token (the start) and of the second token (the end) is converted by the
  heuristic: 8 to 11 unchanged, 12 stays 12, 1 to 7 plus 12.  \<open>1:00-2:00\<close> parses to start
  780 and end 840.
\<close>

theorem parseTimeSlot_heuristic:
  assumes "timeMatches s = m # ms" and "ampmMatches False s = []"
  shows "(8 \<le> parseInt (fst m) \<and> parseInt (fst m) \<le> 11 \<longrightarrow>
            start (parseTimeSlot s) = parseInt (fst m) * 60 + parseInt (snd m))
       \<and> (parseInt (fst m) = 12 \<longrightarrow> start (parseTimeSlot s) = 12 * 60 + parseInt (snd m))
       \<and> (1 \<le> parseInt (fst m) \<and> parseInt (fst m) \<le> 7 \<longrightarrow>
            start (parseTimeSlot s) = (parseInt (fst m) + 12) * 60 + parseInt (snd m))
       \<and> (\<forall>m' ms'. ms = m' # ms' \<longrightarrow>
            (8 \<le> parseInt (fst m') \<and> parseInt (fst m') \<le> 11 \<longrightarrow>
               end' (parseTimeSlot s) = parseInt (fst m') * 60 + parseInt (snd m'))
          \<and> (parseInt (fst m') = 12 \<longrightarrow> end' (parseTimeSlot s) = 12 * 60 + parseInt (snd m'))
          \<and> (1 \<le> parseInt (fst m') \<and> parseInt (fst m') \<le> 7 \<longrightarrow>
               end' (parseTimeSlot s) = (parseInt (fst m') + 12) * 60 + parseInt (snd m')))
       \<and> parseTimeSlot ''1:00-2:00'' = \<lparr>start = 780, end' = 840\<rparr>"
proof -
  have ex: "parseTimeSlot ''1:00-2:00'' = \<lparr>start = 780, end' = 840\<rparr>"
    by code_simp
  have st: "start (parseTimeSlot s) = parseTime m s 0"
    using parseTimeSlot_known(1) [OF assms(1)] .
  have en: "ms = m' # ms' \<Longrightarrow> end' (parseTimeSlot s) = parseTime m' s 1" for m' ms'
    using parseTimeSlot_known(2) [OF assms(1)] by simp
  show ?thesis
    using ex st en parseTime_no_marker [OF assms(2)] by auto
qed

theorem parseTimeSlot_heuristic_witness:
  "timeMatches ''11:30-1:20'' = [(''11'', ''30''), (''1'', ''20'')]
   \<and> ampmMatches False ''11:30-1:20'' = []
   \<and> start (parseTimeSlot ''11:30-1:20'') = 690
   \<and> end' (parseTimeSlot ''11:30-1:20'') = 800"
proof -
  have tm: "timeMatches ''11:30-1:20'' = [(''11'', ''30''), (''1'', ''20'')]"
    by code_simp
  have am: "ampmMatches False ''11:30-1:20'' = []"
    by code_simp
  have v: "parseInt ''11'' = 11" "parseInt ''30'' = 30" "parseInt ''1'' = 1" "parseInt ''20'' = 20"
    by (simp_all add: parseInt_def digitVal_def)
  show ?thesis
    using parseTimeSlot_heuristic [OF tm am] tm am v by simp
qed

section \<open>Sessions built by the extraction\<close>

lemma courseSession_times:
  "timeSlot (courseSession sheetName colIdx rowIdx isLab roomText cellColor colRank selectedCourse
       emb labTimeRow timeRow)
     = resolveTimeSlot emb isLab labTimeRow timeRow colIdx"
  "startMinutes (courseSession sheetName colIdx rowIdx isLab roomText cellColor colRank
       selectedCourse emb labTimeRow timeRow)
     = start (parseTimeSlot (resolveTimeSlot emb isLab labTimeRow timeRow colIdx))"
  "endMinutes (courseSession sheetName colIdx rowIdx isLab roomText cellColor colRank
       selectedCourse emb labTimeRow timeRow)
     = end' (parseTimeSlot (resolveTimeSlot emb isLab labTimeRow timeRow colIdx))"
  by (simp_all add: courseSession_def Let_def)

lemma batchSession_times:
  "timeSlot (batchSession sheetName colIdx rowIdx isLab roomText cellColor colRank batchName dept
       sec cName emb labTimeRow timeRow)
     = resolveTimeSlot emb isLab labTimeRow timeRow colIdx"
  "startMinutes (batchSession sheetName colIdx rowIdx isLab roomText cellColor colRank batchName
       dept sec cName emb labTimeRow timeRow)
     = start (parseTimeSlot (resolveTimeSlot emb isLab labTimeRow timeRow colIdx))"
  "endMinutes (batchSession sheetName colIdx rowIdx isLab roomText cellColor colRank batchName
       dept sec cName emb labTimeRow timeRow)
     = end' (parseTimeSlot (resolveTimeSlot emb isLab labTimeRow timeRow colIdx))"
  by (simp_all add: batchSession_def Let_def)

lemma parsed_order_cases:
  "(timeMatches s = [] \<longrightarrow> start (parseTimeSlot s) = 9999 \<and> end' (parseTimeSlot s) = 9999)
   \<and> (\<forall>m. timeMatches s = [m] \<longrightarrow> end' (parseTimeSlot s) = start (parseTimeSlot s) + 50)
   \<and> (length (timeMatches s) \<le> 1 \<longrightarrow> start (parseTimeSlot s) \<le> end' (parseTimeSlot s))
   \<and> (\<forall>m1 m2 ms. timeMatches s = m1 # m2 # ms \<longrightarrow>
         start (parseTimeSlot s) = parseTime m1 s 0 \<and> end' (parseTimeSlot s) = parseTime m2 s 1)"
proof (cases "timeMatches s")
  case Nil
  then show ?thesis
    using parseTimeSlot_unknown [of s] by simp
next
  case (Cons m ms)
  show ?thesis
    using parseTimeSlot_known [OF Cons] Cons by (cases ms) auto
qed

text \<open>
  C8, as stated, fails.  The lecture time row of a sheet has the slot \<open>7:00-8:00\<close> in column
  1; a cell of the selected course in that column gives a session that starts at 1140
  (19:00, hour 7 is taken as PM) and ends at 480 (8:00, hour 8 is taken as AM).
\<close>

theorem extraction_start_after_end:
  "\<not> (startMinutes
         (courseSession ''Monday'' 1 6 False ''CS-1'' ''0.800.200.10'' 0
            \<lparr>Course.id' = ''DS_CS_A_BS-CS-1'', name = ''DS'', Course.department = ''CS'',
             Course.section = ''A'', Course.batch = ''BS-CS-1'',
             Course.colorCode = ''0.800.200.10'', fullEntry = ''DS (CS-A)'',
             Course.day = ''Monday''\<rparr>
            \<lparr>cleanedName = ''DS (CS-A)'', EmbeddedTime.timeSlot = ''Unknown'',
             hasEmbeddedTime = False\<rparr>
            None [''Room'', ''7:00-8:00''])
       \<le> endMinutes
         (courseSession ''Monday'' 1 6 False ''CS-1'' ''0.800.200.10'' 0
            \<lparr>Course.id' = ''DS_CS_A_BS-CS-1'', name = ''DS'', Course.department = ''CS'',
             Course.section = ''A'', Course.batch = ''BS-CS-1'',
             Course.colorCode = ''0.800.200.10'', fullEntry = ''DS (CS-A)'',
             Course.day = ''Monday''\<rparr>
            \<lparr>cleanedName = ''DS (CS-A)'', EmbeddedTime.timeSlot = ''Unknown'',
             hasEmbeddedTime = False\<rparr>
            None [''Room'', ''7:00-8:00''])
      \<or> startMinutes
         (courseSession ''Monday'' 1 6 False ''CS-1'' ''0.800.200.10'' 0
            \<lparr>Course.id' = ''DS_CS_A_BS-CS-1'', name = ''DS'', Course.department = ''CS'',
             Course.section = ''A'', Course.batch = ''BS-CS-1'',
             Course.colorCode = ''0.800.200.10'', fullEntry = ''DS (CS-A)'',
             Course.day = ''Monday''\<rparr>
            \<lparr>cleanedName = ''DS (CS-A)'', EmbeddedTime.timeSlot = ''Unknown'',
             hasEmbeddedTime = False\<rparr>
            None [''Room'', ''7:00-8:00'']) = 9999)"
proof -
  have slot: "resolveTimeSlot
      \<lparr>cleanedName = ''DS (CS-A)'', EmbeddedTime.timeSlot = ''Unknown'', hasEmbeddedTime = False\<rparr>
      False None [''Room'', ''7:00-8:00''] 1 = ''7:00-8:00''"
    by (simp add: resolveTimeSlot_def cellTime_def)
  have p: "parseTimeSlot ''7:00-8:00'' = \<lparr>start = 1140, end' = 480\<rparr>"
    by code_simp
  show ?thesis
    unfolding courseSession_times slot p by simp
qed

text \<open>
  C8, amended.  Every session built by \<open>getTimetableForCourses\<close> or \<open>getAllSessionsForBatch\<close>
  carries the two numbers that \<open>parseTimeSlot\<close> gives for its time-slot text.  The start does
  not exceed the end when that text has fewer than two \<open>H:MM\<close> tokens: without a token both
  are 9999, with one token the end is the start plus 50.  With two or more tokens the two
  numbers are the conversions of the first and of the second token, in no enforced order.
\<close>

theorem extraction_session_times:
  assumes "sess = courseSession sheetName colIdx rowIdx isLab roomText cellColor colRank
                    selectedCourse emb labTimeRow timeRow
           \<or> sess = batchSession sheetName colIdx rowIdx isLab roomText cellColor colRank
                    batchName dept sec cName emb labTimeRow timeRow"
  shows "startMinutes sess = start (parseTimeSlot (timeSlot sess))
       \<and> endMinutes sess = end' (parseTimeSlot (timeSlot sess))
       \<and> (timeMatches (timeSlot sess) = [] \<longrightarrow>
            startMinutes sess = 9999 \<and> endMinutes sess = 9999)
       \<and> (\<forall>m. timeMatches (timeSlot sess) = [m] \<longrightarrow> endMinutes sess = startMinutes sess + 50)
       \<and> (length (timeMatches (timeSlot sess)) \<le> 1 \<longrightarrow> startMinutes sess \<le> endMinutes sess)
       \<and> (\<forall>m1 m2 ms. timeMatches (timeSlot sess) = m1 # m2 # ms \<longrightarrow>
            startMinutes sess = parseTime m1 (timeSlot sess) 0
            \<and> endMinutes sess = parseTime m2 (timeSlot sess) 1)"
proof -
  have eq: "startMinutes sess = start (parseTimeSlot (timeSlot sess))
          \<and> endMinutes sess = end' (parseTimeSlot (timeSlot sess))"
    using assms by (auto simp: courseSession_times batchSession_times)
  show ?thesis
    using eq parsed_order_cases [of "timeSlot sess"] by simp
qed

theorem extraction_session_times_witness:
  "timeSlot (batchSession ''Tuesday'' 2 9 True ''Lab-3'' ''0.100.500.90'' 1 ''BS-SE-2''
       ''SE'' ''B'' ''OOP Lab''
       \<lparr>cleanedName = ''OOP Lab (SE-B)'', EmbeddedTime.timeSlot = ''Unknown'',
        hasEmbeddedTime = False\<rparr>
       (Some [''Lab'', ''8:30'', ''11:30'']) [''Room'', ''8:00-8:50'', ''9:00-9:50'']) = ''11:30''
   \<and> startMinutes (batchSession ''Tuesday'' 2 9 True ''Lab-3'' ''0.100.500.90'' 1 ''BS-SE-2''
       ''SE'' ''B'' ''OOP Lab''
       \<lparr>cleanedName = ''OOP Lab (SE-B)'', EmbeddedTime.timeSlot = ''Unknown'',
        hasEmbeddedTime = False\<rparr>
       (Some [''Lab'', ''8:30'', ''11:30'']) [''Room'', ''8:00-8:50'', ''9:00-9:50'']) = 690
   \<and> endMinutes (batchSession ''Tuesday'' 2 9 True ''Lab-3'' ''0.100.500.90'' 1 ''BS-SE-2''
       ''SE'' ''B'' ''OOP Lab''
       \<lparr>cleanedName = ''OOP Lab (SE-B)'', EmbeddedTime.timeSlot = ''Unknown'',
        hasEmbeddedTime = False\<rparr>
       (Some [''Lab'', ''8:30'', ''11:30'']) [''Room'', ''8:00-8:50'', ''9:00-9:50'']) = 740"
proof -
  have slot: "timeSlot (batchSession ''Tuesday'' 2 9 True ''Lab-3'' ''0.100.500.90'' 1
       ''BS-SE-2'' ''SE'' ''B'' ''OOP Lab''
       \<lparr>cleanedName = ''OOP Lab (SE-B)'', EmbeddedTime.timeSlot = ''Unknown'',
        hasEmbeddedTime = False\<rparr>
       (Some [''Lab'', ''8:30'', ''11:30'']) [''Room'', ''8:00-8:50'', ''9:00-9:50'']) = ''11:30''"
    by (simp add: batchSession_times resolveTimeSlot_def cellTime_def)
  have tm: "timeMatches ''11:30'' = [(''11'', ''30'')]"
    by code_simp
  have p: "start (parseTimeSlot ''11:30'') = 690"
    by code_simp
  show ?thesis
    using extraction_session_times [OF disjI2 [OF refl],
        where sheetName = "''Tuesday''" and colIdx = 2 and rowIdx = 9 and isLab = True
          and roomText = "''Lab-3''" and cellColor = "''0.100.500.90''" and colRank = 1
          and batchName = "''BS-SE-2''" and dept = "''SE''" and sec = "''B''"
          and cName = "''OOP Lab''"
          and emb = "\<lparr>cleanedName = ''OOP Lab (SE-B)'', EmbeddedTime.timeSlot = ''Unknown'',
                     hasEmbeddedTime = False\<rparr>"
          and labTimeRow = "Some [''Lab'', ''8:30'', ''11:30'']"
          and timeRow = "[''Room'', ''8:00-8:50'', ''9:00-9:50'']"]
      slot tm p
    by (simp del: timeMatches.simps)
qed

section \<open>Properties of clash detection\<close>

lemma firstByKey_append:
  "firstByKey f (xs @ ys) seen = firstByKey f xs seen @ firstByKey f ys (seen \<union> f ` set xs)"
  by (induction xs arbitrary: seen) (auto simp: insert_absorb)

lemma firstByKey_keys:
  "f ` set (firstByKey f xs seen) = f ` set xs - seen"
  by (induction xs arbitrary: seen) auto

lemma firstByKey_subset: "set (firstByKey f xs seen) \<subseteq> set xs"
  by (induction xs arbitrary: seen) auto

lemma firstByKey_distinct: "distinct (map f (firstByKey f xs seen))"
proof (induction xs arbitrary: seen)
  case Nil
  then show ?case by simp
next
  case (Cons x xs)
  have "f x \<notin> f ` set (firstByKey f xs (insert (f x) seen))"
    by (simp add: firstByKey_keys)
  then show ?case
    using Cons by simp
qed

lemma firstByKey_length: "length (firstByKey f xs {}) = card (f ` set xs)"
proof -
  have "length (firstByKey f xs {}) = length (map f (firstByKey f xs {}))"
    by simp
  also have "\<dots> = card (set (map f (firstByKey f xs {})))"
    using distinct_card [OF firstByKey_distinct [of f xs "{}"]] by simp
  also have "\<dots> = card (f ` set xs)"
    using firstByKey_keys [of f xs "{}"] by simp
  finally show ?thesis .
qed

lemma firstByKey_find:
  "x \<in> set (firstByKey f xs seen) \<Longrightarrow> find (\<lambda>y. f y = f x) xs = Some x"
proof (induction xs arbitrary: seen)
  case Nil
  then show ?case by simp
next
  case (Cons y ys)
  show ?case
  proof (cases "f y \<in> seen")
    case True
    then have x: "x \<in> set (firstByKey f ys seen)"
      using Cons.prems by simp
    then have "f x \<in> f ` set ys - seen"
      using firstByKey_keys [of f ys seen] by blast
    then have "f y \<noteq> f x"
      using True by auto
    then show ?thesis
      using Cons.IH [OF x] by simp
  next
    case False
    then have "x = y \<or> x \<in> set (firstByKey f ys (insert (f y) seen))"
      using Cons.prems by simp
    then show ?thesis
    proof
      assume "x = y"
      then show ?thesis by simp
    next
      assume x: "x \<in> set (firstByKey f ys (insert (f y) seen))"
      then have "f x \<in> f ` set ys - insert (f y) seen"
        using firstByKey_keys [of f ys "insert (f y) seen"] by blast
      then have "f y \<noteq> f x"
        by auto
      then show ?thesis
        using Cons.IH [OF x] by simp
    qed
  qed
qed

lemma firstByKey_id:
  "distinct (map f xs) \<Longrightarrow> f ` set xs \<inter> seen = {} \<Longrightarrow> firstByKey f xs seen = xs"
  by (induction xs arbitrary: seen) auto

lemma detectInner_eq:
  "detectInner s1 rest (found, seen) =
     (found @ map (\<lambda>p. mkClash (fst p) (snd p))
                (firstByKey pairKey (filter clashingPair (map (Pair s1) rest)) seen),
      seen \<union> pairKey ` set (filter clashingPair (map (Pair s1) rest)))"
proof (induction rest arbitrary: found seen)
  case Nil
  then show ?case by simp
next
  case (Cons s2 rest)
  show ?case
  proof (cases "clashingPair (s1, s2)")
    case False
    then show ?thesis
      using Cons.IH [of found seen] by (auto simp: clashingPair_def)
  next
    case True
    then show ?thesis
      using Cons.IH [of found seen]
        Cons.IH [of "found @ [mkClash s1 s2]" "insert (pairKey (s1, s2)) seen"]
      by (auto simp: clashingPair_def pairKey_def Let_def insert_absorb)
  qed
qed

lemma detectOuter_eq:
  "detectOuter sessions (found, seen) =
     (found @ map (\<lambda>p. mkClash (fst p) (snd p))
                (firstByKey pairKey (filter clashingPair (sessionPairs sessions)) seen),
      seen \<union> pairKey ` set (filter clashingPair (sessionPairs sessions)))"
proof (induction sessions arbitrary: found seen)
  case Nil
  then show ?case by simp
next
  case (Cons s1 rest)
  show ?case
    by (simp add: detectInner_eq Cons.IH firstByKey_append Un_assoc image_Un)
qed

lemma detectClashes_eq:
  "detectClashes sessions =
     map (\<lambda>p. mkClash (fst p) (snd p))
       (firstByKey pairKey (filter clashingPair (sessionPairs sessions)) {})"
  by (simp add: detectClashes_def detectOuter_eq)


lemma clashKey_commute: "clashKey c1 c2 d = clashKey c2 c1 d"
proof -
  have "sort [c1, c2, d] = sort [c2, c1, d]"
    using insort_left_comm [of c1 c2 "sort [d]"] by (simp only: sort_key_simps)
  then show ?thesis
    by (simp only: clashKey_def)
qed

lemma sameTriple_pairKey: "sameTriple p q \<Longrightarrow> pairKey p = pairKey q"
  using clashKey_commute by (auto simp: sameTriple_def pairKey_def)

lemma sameTriple_refl: "sameTriple p p"
  by (simp add: sameTriple_def)

lemma find_first_weaker:
  assumes "find P xs = Some x" and "Q x" and "\<And>y. Q y \<Longrightarrow> P y"
  shows "find Q xs = Some x"
  using assms by (induction xs) (auto split: if_splits)

lemma sessionPairs_append_subset: "set (sessionPairs xs) \<subseteq> set (sessionPairs (xs @ ys))"
  by (induction xs) auto

text \<open>
  C3.  For every session list, every clash that \<open>detectClashes\<close> returns has two different
  course names: two sessions of the same course are never paired, whatever their days and
  times.
\<close>

theorem detectClashes_same_course_immunity: "\<forall>c \<in> set (detectClashes sessions). course1 c \<noteq> course2 c"
proof
  fix c
  assume "c \<in> set (detectClashes sessions)"
  then obtain p where p: "p \<in> set (firstByKey pairKey (filter clashingPair (sessionPairs sessions)) {})"
    and c: "c = mkClash (fst p) (snd p)"
    by (auto simp: detectClashes_eq)
  have "clashingPair p"
    using p firstByKey_subset [of pairKey "filter clashingPair (sessionPairs sessions)" "{}"]
    by auto
  then show "course1 c \<noteq> course2 c"
    by (simp add: c mkClash_def clashingPair_def)
qed

lemma mkClash_key:
  "clashKey (course1 (mkClash a b)) (course2 (mkClash a b)) (Clash.day (mkClash a b)) = pairKey (a, b)"
  by (simp add: mkClash_def pairKey_def)

lemma clash_keys_distinct:
  "distinct (map (\<lambda>c. clashKey (course1 c) (course2 c) (Clash.day c)) (detectClashes sessions))"
proof -
  have "map (\<lambda>c. clashKey (course1 c) (course2 c) (Clash.day c)) (detectClashes sessions)
        = map pairKey (firstByKey pairKey (filter clashingPair (sessionPairs sessions)) {})"
    by (simp add: detectClashes_eq mkClash_key comp_def)
  then show ?thesis
    by (simp add: firstByKey_distinct)
qed

text \<open>
  C4.  For every session list, no two clashes returned by \<open>detectClashes\<close> have the same day
  and the same unordered pair of course names.  Every returned clash is built from the first
  pair, in the order of the scan, among the clashing pairs with its day and its two courses.
\<close>

theorem detectClashes_one_per_triple:
  "(\<forall>i j. i < j \<and> j < length (detectClashes sessions) \<longrightarrow>
      \<not> (Clash.day (detectClashes sessions ! i) = Clash.day (detectClashes sessions ! j)
         \<and> {course1 (detectClashes sessions ! i), course2 (detectClashes sessions ! i)}
           = {course1 (detectClashes sessions ! j), course2 (detectClashes sessions ! j)}))
   \<and> (\<forall>c \<in> set (detectClashes sessions).
        \<exists>p. c = mkClash (fst p) (snd p)
           \<and> find (\<lambda>q. sameTriple q p) (filter clashingPair (sessionPairs sessions)) = Some p)"
proof (intro conjI allI impI ballI)
  fix i j
  assume ij: "i < j \<and> j < length (detectClashes sessions)"
  let ?out = "detectClashes sessions"
  let ?k = "\<lambda>c. clashKey (course1 c) (course2 c) (Clash.day c)"
  show "\<not> (Clash.day (?out ! i) = Clash.day (?out ! j)
           \<and> {course1 (?out ! i), course2 (?out ! i)} = {course1 (?out ! j), course2 (?out ! j)})"
  proof
    assume same: "Clash.day (?out ! i) = Clash.day (?out ! j)
           \<and> {course1 (?out ! i), course2 (?out ! i)} = {course1 (?out ! j), course2 (?out ! j)}"
    then have "?k (?out ! i) = ?k (?out ! j)"
      using clashKey_commute by (auto simp: doubleton_eq_iff)
    then have eq: "map ?k ?out ! i = map ?k ?out ! j"
      using ij by simp
    have len: "i < length (map ?k ?out)" "j < length (map ?k ?out)"
      using ij by simp_all
    have "i = j"
      using nth_eq_iff_index_eq [OF clash_keys_distinct [of sessions] len] eq by blast
    then show False
      using ij by simp
  qed
next
  fix c
  assume "c \<in> set (detectClashes sessions)"
  then obtain p where p: "p \<in> set (firstByKey pairKey (filter clashingPair (sessionPairs sessions)) {})"
    and c: "c = mkClash (fst p) (snd p)"
    by (auto simp: detectClashes_eq)
  have "find (\<lambda>q. pairKey q = pairKey p) (filter clashingPair (sessionPairs sessions)) = Some p"
    using firstByKey_find [OF p] .
  then have "find (\<lambda>q. sameTriple q p) (filter clashingPair (sessionPairs sessions)) = Some p"
    by (rule find_first_weaker) (simp_all add: sameTriple_refl sameTriple_pairKey)
  then show "\<exists>p. c = mkClash (fst p) (snd p)
           \<and> find (\<lambda>q. sameTriple q p) (filter clashingPair (sessionPairs sessions)) = Some p"
    using c by blast
qed

text \<open>
  C5.  For every session list and every session, \<open>detectClashes\<close> on the list with the
  session appended returns at least as many clashes as on the list alone.
\<close>

theorem detectClashes_append_monotone: "length (detectClashes sessions) \<le> length (detectClashes (sessions @ [s]))"
proof -
  have "pairKey ` set (filter clashingPair (sessionPairs sessions))
        \<subseteq> pairKey ` set (filter clashingPair (sessionPairs (sessions @ [s])))"
    using sessionPairs_append_subset [of sessions "[s]"] by auto
  then have "card (pairKey ` set (filter clashingPair (sessionPairs sessions)))
        \<le> card (pairKey ` set (filter clashingPair (sessionPairs (sessions @ [s]))))"
    by (intro card_mono) simp_all
  then show ?thesis
    by (simp add: detectClashes_eq firstByKey_length)
qed

lemma example_clash_pair:
  "detectClashes [exampleSession ''DS'' ''A'' ''Monday'' ''09:00-10:45'' Class,
                  exampleSession ''OOP'' ''A'' ''Monday'' ''10:00-11:00'' Class]
   = [\<lparr>course1 = ''DS'', course2 = ''OOP'', day = ''Monday'', timeSlot1 = ''09:00-10:45'',
       timeSlot2 = ''10:00-11:00'', section1 = ''A'', section2 = ''A''\<rparr>]"
  by code_simp

lemma example_clash_week:
  "detectClashes [exampleSession ''DS'' ''A'' ''Monday'' ''09:00-10:45'' Class,
                  exampleSession ''OOP'' ''A'' ''Monday'' ''10:00-11:00'' Class,
                  exampleSession ''OOP'' ''B'' ''Monday'' ''09:30-10:30'' Class,
                  exampleSession ''DS'' ''A'' ''Tuesday'' ''09:00-10:45'' Class,
                  exampleSession ''OOP'' ''A'' ''Tuesday'' ''10:00-11:00'' Class]
   = [\<lparr>course1 = ''DS'', course2 = ''OOP'', day = ''Monday'', timeSlot1 = ''09:00-10:45'',
       timeSlot2 = ''10:00-11:00'', section1 = ''A'', section2 = ''A''\<rparr>,
      \<lparr>course1 = ''DS'', course2 = ''OOP'', day = ''Tuesday'', timeSlot1 = ''09:00-10:45'',
       timeSlot2 = ''10:00-11:00'', section1 = ''A'', section2 = ''A''\<rparr>]"
  by code_simp

lemma example_no_clash:
  "detectClashes [exampleSession ''DS'' ''A'' ''Monday'' ''09:00-10:45'' Class] = []"
  by code_simp

theorem detectClashes_same_course_immunity_witness:
  "detectClashes [exampleSession ''DS'' ''A'' ''Monday'' ''09:00-10:45'' Class,
                  exampleSession ''OOP'' ''A'' ''Monday'' ''10:00-11:00'' Class]
     = [\<lparr>course1 = ''DS'', course2 = ''OOP'', day = ''Monday'', timeSlot1 = ''09:00-10:45'',
         timeSlot2 = ''10:00-11:00'', section1 = ''A'', section2 = ''A''\<rparr>]
   \<and> course1 (detectClashes [exampleSession ''DS'' ''A'' ''Monday'' ''09:00-10:45'' Class,
                  exampleSession ''OOP'' ''A'' ''Monday'' ''10:00-11:00'' Class] ! 0)
     \<noteq> course2 (detectClashes [exampleSession ''DS'' ''A'' ''Monday'' ''09:00-10:45'' Class,
                  exampleSession ''OOP'' ''A'' ''Monday'' ''10:00-11:00'' Class] ! 0)"
proof -
  let ?S = "[exampleSession ''DS'' ''A'' ''Monday'' ''09:00-10:45'' Class,
             exampleSession ''OOP'' ''A'' ''Monday'' ''10:00-11:00'' Class]"
  have mem: "detectClashes ?S ! 0 \<in> set (detectClashes ?S)"
    by (simp add: example_clash_pair)
  have "course1 (detectClashes ?S ! 0) \<noteq> course2 (detectClashes ?S ! 0)"
    using detectClashes_same_course_immunity [of ?S] mem by (rule bspec)
  then show ?thesis
    using example_clash_pair by (rule conjI [rotated])
qed

theorem detectClashes_one_per_triple_witness:
  "length (detectClashes [exampleSession ''DS'' ''A'' ''Monday'' ''09:00-10:45'' Class,
                  exampleSession ''OOP'' ''A'' ''Monday'' ''10:00-11:00'' Class,
                  exampleSession ''OOP'' ''B'' ''Monday'' ''09:30-10:30'' Class,
                  exampleSession ''DS'' ''A'' ''Tuesday'' ''09:00-10:45'' Class,
                  exampleSession ''OOP'' ''A'' ''Tuesday'' ''10:00-11:00'' Class]) = 2
   \<and> Clash.day (detectClashes [exampleSession ''DS'' ''A'' ''Monday'' ''09:00-10:45'' Class,
                  exampleSession ''OOP'' ''A'' ''Monday'' ''10:00-11:00'' Class,
                  exampleSession ''OOP'' ''B'' ''Monday'' ''09:30-10:30'' Class,
                  exampleSession ''DS'' ''A'' ''Tuesday'' ''09:00-10:45'' Class,
                  exampleSession ''OOP'' ''A'' ''Tuesday'' ''10:00-11:00'' Class] ! 0)
     \<noteq> Clash.day (detectClashes [exampleSession ''DS'' ''A'' ''Monday'' ''09:00-10:45'' Class,
                  exampleSession ''OOP'' ''A'' ''Monday'' ''10:00-11:00'' Class,
                  exampleSession ''OOP'' ''B'' ''Monday'' ''09:30-10:30'' Class,
                  exampleSession ''DS'' ''A'' ''Tuesday'' ''09:00-10:45'' Class,
                  exampleSession ''OOP'' ''A'' ''Tuesday'' ''10:00-11:00'' Class] ! 1)
   \<and> (\<exists>p. detectClashes [exampleSession ''DS'' ''A'' ''Monday'' ''09:00-10:45'' Class,
                  exampleSession ''OOP'' ''A'' ''Monday'' ''10:00-11:00'' Class,
                  exampleSession ''OOP'' ''B'' ''Monday'' ''09:30-10:30'' Class,
                  exampleSession ''DS'' ''A'' ''Tuesday'' ''09:00-10:45'' Class,
                  exampleSession ''OOP'' ''A'' ''Tuesday'' ''10:00-11:00'' Class] ! 0
             = mkClash (fst p) (snd p)
           \<and> find (\<lambda>q. sameTriple q p)
                (filter clashingPair
                   (sessionPairs [exampleSession ''DS'' ''A'' ''Monday'' ''09:00-10:45'' Class,
                  exampleSession ''OOP'' ''A'' ''Monday'' ''10:00-11:00'' Class,
                  exampleSession ''OOP'' ''B'' ''Monday'' ''09:30-10:30'' Class,
                  exampleSession ''DS'' ''A'' ''Tuesday'' ''09:00-10:45'' Class,
                  exampleSession ''OOP'' ''A'' ''Tuesday'' ''10:00-11:00'' Class])) = Some p)"
proof -
  let ?S = "[exampleSession ''DS'' ''A'' ''Monday'' ''09:00-10:45'' Class,
             exampleSession ''OOP'' ''A'' ''Monday'' ''10:00-11:00'' Class,
             exampleSession ''OOP'' ''B'' ''Monday'' ''09:30-10:30'' Class,
             exampleSession ''DS'' ''A'' ''Tuesday'' ''09:00-10:45'' Class,
             exampleSession ''OOP'' ''A'' ''Tuesday'' ''10:00-11:00'' Class]"
  have len: "length (detectClashes ?S) = 2"
    by (simp add: example_clash_week)
  have a: "\<not> (Clash.day (detectClashes ?S ! 0) = Clash.day (detectClashes ?S ! 1)
              \<and> {course1 (detectClashes ?S ! 0), course2 (detectClashes ?S ! 0)}
                = {course1 (detectClashes ?S ! 1), course2 (detectClashes ?S ! 1)})"
    using detectClashes_one_per_triple [of ?S, THEN conjunct1, rule_format, of 0 1] len
    by simp
  have same: "{course1 (detectClashes ?S ! 0), course2 (detectClashes ?S ! 0)}
                = {course1 (detectClashes ?S ! 1), course2 (detectClashes ?S ! 1)}"
    by (simp add: example_clash_week)
  have days: "Clash.day (detectClashes ?S ! 0) \<noteq> Clash.day (detectClashes ?S ! 1)"
    using a same by blast
  have mem: "detectClashes ?S ! 0 \<in> set (detectClashes ?S)"
    by (simp add: example_clash_week)
  have b: "\<exists>p. detectClashes ?S ! 0 = mkClash (fst p) (snd p)
           \<and> find (\<lambda>q. sameTriple q p) (filter clashingPair (sessionPairs ?S)) = Some p"
    using detectClashes_one_per_triple [of ?S, THEN conjunct2] mem by (rule bspec)
  show ?thesis
    by (intro conjI len days b)
qed

theorem detectClashes_append_monotone_witness:
  "length (detectClashes [exampleSession ''DS'' ''A'' ''Monday'' ''09:00-10:45'' Class]) = 0
   \<and> length (detectClashes ([exampleSession ''DS'' ''A'' ''Monday'' ''09:00-10:45'' Class]
                @ [exampleSession ''OOP'' ''A'' ''Monday'' ''10:00-11:00'' Class])) = 1
   \<and> length (detectClashes [exampleSession ''DS'' ''A'' ''Monday'' ''09:00-10:45'' Class])
     \<le> length (detectClashes ([exampleSession ''DS'' ''A'' ''Monday'' ''09:00-10:45'' Class]
                @ [exampleSession ''OOP'' ''A'' ''Monday'' ''10:00-11:00'' Class]))"
  using detectClashes_append_monotone
    [of "[exampleSession ''DS'' ''A'' ''Monday'' ''09:00-10:45'' Class]"
        "exampleSession ''OOP'' ''A'' ''Monday'' ''10:00-11:00'' Class"]
  by (simp add: example_clash_pair example_no_clash)

section \<open>Properties of the normalisation\<close>

subsection \<open>Objects\<close>

lemma obj_set_tab:
  "distinct ks \<Longrightarrow>
   obj_set (map (\<lambda>k. (k, g k)) ks) k v
     = map (\<lambda>k'. (k', (g(k := v)) k')) (if k \<in> set ks then ks else ks @ [k])"
  by (induction ks) auto

lemma own_get_tab:
  "own_get (map (\<lambda>k. (k, g k)) ks) k = (if k \<in> set ks then Some (g k) else None)"
  by (induction ks) (auto simp: own_get_def)

lemma own_push_tab:
  assumes "distinct ks"
  shows "own_push (map (\<lambda>k. (k, g k)) ks) k x
     = map (\<lambda>k'. (k', (g(k := (if k \<in> set ks then g k else []) @ [x])) k'))
         (if k \<in> set ks then ks else ks @ [k])"
proof (cases "k \<in> set ks")
  case True
  then show ?thesis
    using assms by (simp add: own_push_def own_get_tab obj_set_tab)
next
  case False
  have d: "distinct (ks @ [k])"
    using assms False by simp
  have 1: "obj_set (map (\<lambda>k. (k, g k)) ks) k [] = map (\<lambda>k'. (k', (g(k := [])) k')) (ks @ [k])"
    using obj_set_tab [OF assms, of g k "[]"] False by simp
  show ?thesis
    using False obj_set_tab [OF d, of "g(k := [])" k "[x]"]
    by (simp add: own_push_def own_get_tab 1 del: map_append)
qed

lemma firstKeys_snoc:
  "firstByKey (\<lambda>k. k) (ks @ [k]) {}
     = (if k \<in> set ks then firstByKey (\<lambda>k. k) ks {} else firstByKey (\<lambda>k. k) ks {} @ [k])"
  by (simp add: firstByKey_append)

lemma firstKeys_set: "set (firstByKey (\<lambda>k. k) ks {}) = set ks"
  using firstByKey_keys [of "\<lambda>k. k" ks "{}"] by simp

lemma firstKeys_distinct: "distinct (firstByKey (\<lambda>k. k) ks {})"
  using firstByKey_distinct [of "\<lambda>k. k" ks "{}"] by simp

lemma group_fold_tab:
  "fold (\<lambda>x m. own_push m (f x) x) xs []
     = map (\<lambda>k. (k, filter (\<lambda>x. f x = k) xs)) (firstByKey (\<lambda>k. k) (map f xs) {})"
proof (induction xs rule: rev_induct)
  case Nil
  then show ?case by simp
next
  case (snoc x xs)
  let ?ks = "firstByKey (\<lambda>k. k) (map f xs) {}"
  let ?g = "\<lambda>k. filter (\<lambda>x. f x = k) xs"
  have ks: "set ?ks = f ` set xs"
    by (simp add: firstKeys_set)
  have push: "own_push (map (\<lambda>k. (k, ?g k)) ?ks) (f x) x
     = map (\<lambda>k'. (k', (?g(f x := (if f x \<in> set ?ks then ?g (f x) else []) @ [x])) k'))
         (if f x \<in> set ?ks then ?ks else ?ks @ [f x])"
    using own_push_tab [OF firstKeys_distinct, of ?g "map f xs" "f x" x] .
  have g: "(?g(f x := (if f x \<in> set ?ks then ?g (f x) else []) @ [x])) k
           = filter (\<lambda>y. f y = k) (xs @ [x])" for k
  proof -
    have "filter (\<lambda>y. f y = f x) xs = []" if "f x \<notin> f ` set xs"
    proof (rule filter_False)
      show "\<forall>y\<in>set xs. \<not> f y = f x"
        using that by (metis imageI)
    qed
    then show ?thesis
      by (auto simp: ks)
  qed
  have keys: "firstByKey (\<lambda>k. k) (map f (xs @ [x])) {}
              = (if f x \<in> set ?ks then ?ks else ?ks @ [f x])"
    using firstKeys_snoc [of "map f xs" "f x"] by (simp add: ks)
  show ?case
    by (simp only: fold_append comp_apply fold_simps id_apply snoc.IH push g keys)
qed


lemma insort_key_map:
  "insort_key f (h x) (map h xs) = map h (insort_key (\<lambda>y. f (h y)) x xs)"
  by (induction xs) auto

lemma sort_key_map: "sort_key f (map h xs) = map h (sort_key (\<lambda>y. f (h y)) xs)"
  by (induction xs) (simp_all add: insort_key_map)

lemma obj_entries_tab:
  "obj_entries (map (\<lambda>k. (k, g k)) ks) = map (\<lambda>k. (k, g k)) (jsKeyOrder ks)"
  by (simp add: obj_entries_def jsKeyOrder_def filter_map comp_def sort_key_map)

lemma fold_append_concat: "fold (\<lambda>e acc. acc @ h e) es a = a @ concat (map h es)"
  by (induction es arbitrary: a) simp_all

lemma filterValidSessionsOwn_eq:
  "filterValidSessionsOwn sessions =
     concat (map (\<lambda>k. courseFiltered k (filter (\<lambda>s. courseName s = k) sessions))
               (jsKeyOrder (firstByKey (\<lambda>k. k) (map courseName sessions) {})))"
  by (simp add: filterValidSessionsOwn_def groupByCourseOwn_def group_fold_tab obj_entries_tab
      fold_append_concat comp_def)


lemma jsKeyOrder_distinct: "distinct ks \<Longrightarrow> distinct (jsKeyOrder ks)"
  by (auto simp: jsKeyOrder_def)

lemma jsKeyOrder_filter_fix: "jsKeyOrder (filter P (jsKeyOrder ks)) = filter P (jsKeyOrder ks)"
proof -
  let ?idx = "sort_key parseInt (filter isArrayIndex ks)"
  let ?str = "filter (\<lambda>k. \<not> isArrayIndex k) ks"
  have idx: "filter isArrayIndex (filter P (?idx @ ?str)) = filter P ?idx"
  proof -
    have a: "filter isArrayIndex (filter P ?idx) = filter P ?idx"
      by (rule filter_True) auto
    have b: "filter isArrayIndex (filter P ?str) = []"
      by (rule filter_False) auto
    show ?thesis
      using a b by simp
  qed
  have str: "filter (\<lambda>k. \<not> isArrayIndex k) (filter P (?idx @ ?str)) = filter P ?str"
  proof -
    have a: "filter (\<lambda>k. \<not> isArrayIndex k) (filter P ?idx) = []"
      by (rule filter_False) auto
    have b: "filter (\<lambda>k. \<not> isArrayIndex k) (filter P ?str) = filter P ?str"
      by (rule filter_True) auto
    show ?thesis
      using a b by simp
  qed
  have "sorted (map parseInt (filter P ?idx))"
    using sorted_filter [of parseInt ?idx P] by simp
  then have srt: "sort_key parseInt (filter P ?idx) = filter P ?idx"
    by (rule sort_key_id_if_sorted)
  show ?thesis
    unfolding jsKeyOrder_def idx str srt by simp
qed

subsection \<open>One course\<close>

lemma removeDuplicateDaysLoop_eq: "removeDuplicateDaysLoop xs seen = firstByKey dayKey xs seen"
  by (induction xs arbitrary: seen) (simp_all add: dayKey_def Let_def)

lemma removeDuplicateDays_eq: "removeDuplicateDays xs = firstByKey dayKey xs {}"
  by (simp add: removeDuplicateDays_def removeDuplicateDaysLoop_eq)

lemma removeDuplicateDays_take_fix:
  "removeDuplicateDays (take n (removeDuplicateDays xs)) = take n (removeDuplicateDays xs)"
proof -
  have "distinct (map dayKey (take n (firstByKey dayKey xs {})))"
    using distinct_take [OF firstByKey_distinct [of dayKey xs "{}"], of n]
    by (simp add: take_map)
  then show ?thesis
    by (simp add: removeDuplicateDays_eq firstByKey_id)
qed

lemma removeDuplicateDays_subset: "set (removeDuplicateDays xs) \<subseteq> set xs"
  by (simp add: removeDuplicateDays_eq firstByKey_subset)

lemma uniqueLab_all_lab:
  "\<forall>s \<in> set (take n (removeDuplicateDays (filter (\<lambda>s. sessionType s = Lab) xs))).
     sessionType s = Lab"
  using removeDuplicateDays_subset [of "filter (\<lambda>s. sessionType s = Lab) xs"]
  by (auto dest: in_set_takeD)

lemma uniqueClass_all_class:
  "\<forall>s \<in> set (take n (removeDuplicateDays (filter (\<lambda>s. sessionType s = Class) xs))).
     sessionType s = Class"
  using removeDuplicateDays_subset [of "filter (\<lambda>s. sessionType s = Class) xs"]
  by (auto dest: in_set_takeD)

lemma courseFiltered_subset: "set (courseFiltered c xs) \<subseteq> set xs"
proof -
  have a: "set (take n (removeDuplicateDays (filter P xs))) \<subseteq> set xs" for n P
    using removeDuplicateDays_subset [of "filter P xs"] set_take_subset [of n "removeDuplicateDays (filter P xs)"]
    by auto
  show ?thesis
    using a by (auto simp: courseFiltered_def Let_def)
qed

lemma courseFiltered_idem: "courseFiltered c (courseFiltered c xs) = courseFiltered c xs"
proof -
  let ?L = "take EXPECTED_LABS_PER_WEEK (removeDuplicateDays (filter (\<lambda>s. sessionType s = Lab) xs))"
  let ?C = "take EXPECTED_CLASSES_PER_WEEK (removeDuplicateDays (filter (\<lambda>s. sessionType s = Class) xs))"
  have labs: "\<forall>s \<in> set ?L. sessionType s = Lab"
    using uniqueLab_all_lab [of EXPECTED_LABS_PER_WEEK xs] .
  have classes: "\<forall>s \<in> set ?C. sessionType s = Class"
    using uniqueClass_all_class [of EXPECTED_CLASSES_PER_WEEK xs] .
  have LL: "filter (\<lambda>s. sessionType s = Lab) ?L = ?L"
    using labs by (rule filter_True)
  have LC: "filter (\<lambda>s. sessionType s = Class) ?L = []"
  proof (rule filter_False)
    show "\<forall>s \<in> set ?L. \<not> sessionType s = Class"
      using labs by (metis SessionType.distinct(1))
  qed
  have CC: "filter (\<lambda>s. sessionType s = Class) ?C = ?C"
    using classes by (rule filter_True)
  have CL: "filter (\<lambda>s. sessionType s = Lab) ?C = []"
  proof (rule filter_False)
    show "\<forall>s \<in> set ?C. \<not> sessionType s = Lab"
      using classes by (metis SessionType.distinct(1))
  qed
  have rL: "removeDuplicateDays ?L = ?L"
    by (rule removeDuplicateDays_take_fix)
  have rC: "removeDuplicateDays ?C = ?C"
    by (rule removeDuplicateDays_take_fix)
  have tL: "take EXPECTED_LABS_PER_WEEK ?L = ?L"
    by (simp only: take_take min.idem)
  have tC: "take EXPECTED_CLASSES_PER_WEEK ?C = ?C"
    by (simp only: take_take min.idem)
  show ?thesis
  proof (cases "includes' (toLowerCase c) ''lab''")
    case True
    have cf: "courseFiltered c ys
              = take EXPECTED_LABS_PER_WEEK
                  (removeDuplicateDays (filter (\<lambda>s. sessionType s = Lab) ys))" for ys
      using True by (simp only: courseFiltered_def Let_def if_True)
    show ?thesis
      by (simp only: cf LL rL tL)
  next
    case False
    have cf: "courseFiltered c ys
              = take EXPECTED_CLASSES_PER_WEEK
                  (removeDuplicateDays (filter (\<lambda>s. sessionType s = Class) ys))
                @ take EXPECTED_LABS_PER_WEEK
                  (removeDuplicateDays (filter (\<lambda>s. sessionType s = Lab) ys))" for ys
      using False by (simp only: courseFiltered_def Let_def if_False)
    have fC: "filter (\<lambda>s. sessionType s = Class) (?C @ ?L) = ?C"
      by (simp only: filter_append CC LC append_Nil2)
    have fL: "filter (\<lambda>s. sessionType s = Lab) (?C @ ?L) = ?L"
      by (simp only: filter_append CL LL append_Nil)
    show ?thesis
      by (simp only: cf fC fL rC rL tC tL)
  qed
qed


subsection \<open>All courses\<close>

lemma firstKeys_replicate:
  "firstByKey (\<lambda>k. k) (replicate m k) seen = (if m = 0 \<or> k \<in> seen then [] else [k])"
proof (induction m arbitrary: seen)
  case 0
  then show ?case by simp
next
  case (Suc m)
  show ?case
    by (simp add: Suc.IH)
qed

lemma firstKeys_blocks:
  "distinct K \<Longrightarrow> set K \<inter> seen = {} \<Longrightarrow>
   firstByKey (\<lambda>k. k) (concat (map (\<lambda>k. replicate (n k) k) K)) seen
     = filter (\<lambda>k. n k \<noteq> 0) K"
proof (induction K arbitrary: seen)
  case Nil
  then show ?case by simp
next
  case (Cons k K)
  have k: "k \<notin> seen" and K: "distinct K" and kK: "k \<notin> set K" and Ks: "set K \<inter> seen = {}"
    using Cons.prems by auto
  have rest: "firstByKey (\<lambda>k. k) (concat (map (\<lambda>k. replicate (n k) k) K))
                (seen \<union> set (replicate (n k) k)) = filter (\<lambda>k. n k \<noteq> 0) K"
  proof (rule Cons.IH [OF K])
    show "set K \<inter> (seen \<union> set (replicate (n k) k)) = {}"
      using Ks kK by (auto simp: set_replicate_conv_if)
  qed
  show ?case
    using rest k by (simp add: firstByKey_append firstKeys_replicate)
qed

lemma map_const_replicate: "\<forall>x \<in> set xs. f x = k \<Longrightarrow> map f xs = replicate (length xs) k"
  by (induction xs) simp_all

lemma map_concat_blocks:
  assumes "\<And>k. \<forall>s \<in> set (B k). f s = k"
  shows "map f (concat (map B K)) = concat (map (\<lambda>k. replicate (length (B k)) k) K)"
  using map_const_replicate [OF assms] by (induction K) (simp_all add: map_concat)

lemma filter_concat_blocks:
  assumes "\<And>k'. \<forall>s \<in> set (B k'). f s = k'"
  shows "distinct K \<Longrightarrow> k \<in> set K \<Longrightarrow> filter (\<lambda>s. f s = k) (concat (map B K)) = B k"
proof (induction K)
  case Nil
  then show ?case by simp
next
  case (Cons k' K)
  have own: "filter (\<lambda>s. f s = k') (B k') = B k'"
    using assms [of k'] by (rule filter_True)
  have other: "filter (\<lambda>s. f s = k) (B j) = []" if "j \<noteq> k" for j
  proof (rule filter_False)
    show "\<forall>s \<in> set (B j). \<not> f s = k"
      using assms [of j] that by auto
  qed
  have none: "filter (\<lambda>s. f s = k) (concat (map B K)) = []" if "k \<notin> set K"
  proof (rule filter_False)
    show "\<forall>s \<in> set (concat (map B K)). \<not> f s = k"
      using assms that by auto
  qed
  show ?case
  proof (cases "k = k'")
    case True
    then have "k \<notin> set K"
      using Cons.prems by simp
    then show ?thesis
      using True own none by simp
  next
    case False
    then have "k \<in> set K" "distinct K"
      using Cons.prems by simp_all
    then show ?thesis
      using Cons.IH other [of k'] False by simp
  qed
qed

lemma concat_drop_empty: "concat (map B (filter (\<lambda>k. length (B k) \<noteq> 0) K)) = concat (map B K)"
  by (induction K) simp_all

lemma courseFiltered_group_names:
  "\<forall>s \<in> set (courseFiltered k (filter (\<lambda>s. courseName s = k) sessions)). courseName s = k"
  using courseFiltered_subset [of k "filter (\<lambda>s. courseName s = k) sessions"] by auto

lemma filterValidSessionsOwn_idempotent: "filterValidSessionsOwn (filterValidSessionsOwn sessions) = filterValidSessionsOwn sessions"
proof -
  define B where "B = (\<lambda>k. courseFiltered k (filter (\<lambda>s. courseName s = k) sessions))"
  define K where "K = jsKeyOrder (firstByKey (\<lambda>k. k) (map courseName sessions) {})"
  define K' where "K' = filter (\<lambda>k. length (B k) \<noteq> 0) K"
  have F: "filterValidSessionsOwn sessions = concat (map B K)"
    by (simp add: filterValidSessionsOwn_eq B_def K_def)
  have names: "\<forall>s \<in> set (B k). courseName s = k" for k
    unfolding B_def by (rule courseFiltered_group_names)
  have dK: "distinct K"
    unfolding K_def by (rule jsKeyOrder_distinct) (rule firstKeys_distinct)
  have keys: "firstByKey (\<lambda>k. k) (map courseName (concat (map B K))) {} = K'"
    unfolding K'_def map_concat_blocks [of B courseName, OF names]
    by (rule firstKeys_blocks [OF dK]) simp
  have order: "jsKeyOrder K' = K'"
    unfolding K'_def K_def by (rule jsKeyOrder_filter_fix)
  have block: "courseFiltered k (filter (\<lambda>s. courseName s = k) (concat (map B K))) = B k"
    if "k \<in> set K'" for k
  proof -
    have "k \<in> set K"
      using that by (simp add: K'_def)
    then have "filter (\<lambda>s. courseName s = k) (concat (map B K)) = B k"
      using filter_concat_blocks [of B courseName K k, OF names dK] by simp
    then show ?thesis
      by (simp add: B_def courseFiltered_idem)
  qed
  have "filterValidSessionsOwn (concat (map B K))
        = concat (map (\<lambda>k. courseFiltered k (filter (\<lambda>s. courseName s = k) (concat (map B K)))) K')"
    by (simp only: filterValidSessionsOwn_eq keys order)
  also have "\<dots> = concat (map B K')"
    using block by (simp cong: map_cong)
  also have "\<dots> = concat (map B K)"
    unfolding K'_def by (rule concat_drop_empty)
  finally show ?thesis
    by (simp only: F)
qed

section \<open>Properties of the search\<close>





























section \<open>The program and the computation on own properties\<close>

subsection \<open>Grouping by one key\<close>

lemma own_get_obj_set: "own_get (obj_set m k v) k = Some v"
  by (induction m) (auto simp: own_get_def)

lemma obj_get_cases:
  "obj_get m k = (case own_get m k of
                    Some v \<Rightarrow> Own v
                  | None \<Rightarrow> if k \<in> set inheritedNames then Inherited else Absent)"
  by (simp add: obj_get_def own_get_def)

lemma obj_push_cases:
  "obj_push m k x =
     (if own_get m k = None \<and> k \<in> set inheritedNames then Inl TypeError
      else Inr (own_push m k x))"
proof (cases "own_get m k")
  case None
  then show ?thesis
    by (simp add: obj_push_def obj_get_cases own_push_def own_get_obj_set)
next
  case (Some xs)
  then show ?thesis
    by (simp add: obj_push_def obj_get_cases own_push_def own_get_obj_set)
qed

lemma foldE_append:
  "foldE f (xs @ ys) s = (case foldE f xs s of Inl e \<Rightarrow> Inl e | Inr s' \<Rightarrow> foldE f ys s')"
  by (induction xs arbitrary: s) (simp_all split: sum.split)

lemma foldE_ok:
  "(\<And>x s. x \<in> set xs \<Longrightarrow> f x s = Inr (g x s)) \<Longrightarrow> foldE f xs s = Inr (fold g xs s)"
  by (induction xs arbitrary: s) simp_all


lemma push_fold_cases:
  "foldE (\<lambda>x m. obj_push m (key x) x) xs []
     = (if \<exists>x \<in> set xs. key x \<in> set inheritedNames then Inl TypeError
        else Inr (fold (\<lambda>x m. own_push m (key x) x) xs []))"
proof (cases "\<exists>x \<in> set xs. key x \<in> set inheritedNames")
  case False
  have "foldE (\<lambda>x m. obj_push m (key x) x) xs [] = Inr (fold (\<lambda>x m. own_push m (key x) x) xs [])"
  proof (rule foldE_ok)
    fix x and s :: "'a list obj"
    assume "x \<in> set xs"
    then have "key x \<notin> set inheritedNames"
      using False by blast
    then show "obj_push s (key x) x = Inr (own_push s (key x) x)"
      by (simp add: obj_push_cases)
  qed
  then show ?thesis
    using False by simp
next
  case True
  then obtain ys x zs where xs: "xs = ys @ x # zs"
    and x: "key x \<in> set inheritedNames"
    and ys: "\<forall>y \<in> set ys. key y \<notin> set inheritedNames"
    using split_list_first_prop [of xs "\<lambda>x. key x \<in> set inheritedNames"] by blast
  let ?m = "fold (\<lambda>x m. own_push m (key x) x) ys []"
  have pre: "foldE (\<lambda>x m. obj_push m (key x) x) ys [] = Inr ?m"
  proof (rule foldE_ok)
    fix y and s :: "'a list obj"
    assume "y \<in> set ys"
    then have "key y \<notin> set inheritedNames"
      using ys by blast
    then show "obj_push s (key y) y = Inr (own_push s (key y) y)"
      by (simp add: obj_push_cases)
  qed
  have "key x \<notin> key ` set ys"
    using x ys by auto
  then have "own_get ?m (key x) = None"
    unfolding group_fold_tab own_get_tab by (simp add: firstKeys_set)
  then have "obj_push ?m (key x) x = Inl TypeError"
    using x by (simp add: obj_push_cases)
  then have "foldE (\<lambda>x m. obj_push m (key x) x) xs [] = Inl TypeError"
    unfolding xs foldE_append pre by simp
  then show ?thesis
    using True by simp
qed

lemma filterValidSessions_cases:
  "filterValidSessions sessions
     = (if \<exists>x \<in> set sessions. courseName x \<in> set inheritedNames then Inl TypeError
        else Inr (filterValidSessionsOwn sessions))"
  unfolding filterValidSessions_def groupByCourse_def push_fold_cases
  by (simp add: filterValidSessionsOwn_def groupByCourseOwn_def)


subsection \<open>Agreement of the single steps\<close>

lemma filterValidSessionsOwn_subset: "set (filterValidSessionsOwn sessions) \<subseteq> set sessions"
proof
  fix x
  assume "x \<in> set (filterValidSessionsOwn sessions)"
  then obtain k where "x \<in> set (courseFiltered k (filter (\<lambda>s. courseName s = k) sessions))"
    unfolding filterValidSessionsOwn_eq by auto
  then have "x \<in> set (filter (\<lambda>s. courseName s = k) sessions)"
    using courseFiltered_subset by blast
  then show "x \<in> set sessions"
    by simp
qed

















subsection \<open>The grouping loop returns exactly on plain keys\<close>










subsection \<open>The search\<close>




subsection \<open>\<open>findOptimalSchedule\<close>\<close>







section \<open>Idempotence of the normalisation\<close>

text \<open>
  C9, as stated, fails.  For a single session of a course named \<open>constructor\<close> the lookup
  \<open>courseSessionsMap[session.courseName]\<close> finds the inherited function, so no array is
  stored, and the call of its missing \<open>push\<close> throws: \<open>filterValidSessions\<close> has no
  output to apply it to again.
\<close>

theorem filterValidSessions_inherited_course:
  "filterValidSessions [exampleSession ''constructor'' ''A'' ''Monday'' ''9:00-10:00'' Class]
     = Inl TypeError"
  by code_simp

text \<open>
  C9, amended.  For a session list in which no course name is an inherited property name,
  \<open>filterValidSessions\<close> returns a list, and applying it to that list returns the same
  list, the same sessions in the same order.  For every other session list it throws a
  \<open>TypeError\<close>.
\<close>

theorem filterValidSessions_idempotent:
  "if list_all (\<lambda>x. plainName (courseName x)) sessions
   then \<exists>out. filterValidSessions sessions = Inr out \<and> filterValidSessions out = Inr out
   else filterValidSessions sessions = Inl TypeError"
proof (cases "list_all (\<lambda>x. plainName (courseName x)) sessions")
  case True
  have none: "\<not> (\<exists>x \<in> set sessions. courseName x \<in> set inheritedNames)"
    using True by (simp add: list_all_iff plainName_def)
  have first: "filterValidSessions sessions = Inr (filterValidSessionsOwn sessions)"
    unfolding filterValidSessions_cases using none by simp
  have "\<not> (\<exists>x \<in> set (filterValidSessionsOwn sessions). courseName x \<in> set inheritedNames)"
    using none filterValidSessionsOwn_subset [of sessions] by blast
  then have "filterValidSessions (filterValidSessionsOwn sessions)
             = Inr (filterValidSessionsOwn (filterValidSessionsOwn sessions))"
    unfolding filterValidSessions_cases by simp
  then have second: "filterValidSessions (filterValidSessionsOwn sessions)
                     = Inr (filterValidSessionsOwn sessions)"
    unfolding filterValidSessionsOwn_idempotent .
  have "\<exists>out. filterValidSessions sessions = Inr out \<and> filterValidSessions out = Inr out"
    using first second by blast
  then show ?thesis
    using True by simp
next
  case False
  then have "\<exists>x \<in> set sessions. courseName x \<in> set inheritedNames"
    by (simp add: list_all_iff plainName_def)
  then have "filterValidSessions sessions = Inl TypeError"
    unfolding filterValidSessions_cases by simp
  then show ?thesis
    using False by simp
qed

lemma example_normalised:
  "list_all (\<lambda>x. plainName (courseName x)) exampleClasses"
  "filterValidSessions exampleClasses
   = Inr [exampleSession ''101'' ''A'' ''Tuesday'' ''09:00-09:50'' Class,
          exampleSession ''OOP'' ''A'' ''Monday'' ''09:00-09:50'' Class,
          exampleSession ''OOP'' ''A'' ''Wednesday'' ''09:00-09:50'' Class,
          exampleSession ''OOP'' ''A'' ''Thursday'' ''2:00-4:45'' Lab]"
  by code_simp+

theorem filterValidSessions_idempotent_witness:
  "list_all (\<lambda>x. plainName (courseName x)) exampleClasses
   \<and> filterValidSessions exampleClasses
       = Inr [exampleSession ''101'' ''A'' ''Tuesday'' ''09:00-09:50'' Class,
              exampleSession ''OOP'' ''A'' ''Monday'' ''09:00-09:50'' Class,
              exampleSession ''OOP'' ''A'' ''Wednesday'' ''09:00-09:50'' Class,
              exampleSession ''OOP'' ''A'' ''Thursday'' ''2:00-4:45'' Lab]
   \<and> filterValidSessions
         [exampleSession ''101'' ''A'' ''Tuesday'' ''09:00-09:50'' Class,
          exampleSession ''OOP'' ''A'' ''Monday'' ''09:00-09:50'' Class,
          exampleSession ''OOP'' ''A'' ''Wednesday'' ''09:00-09:50'' Class,
          exampleSession ''OOP'' ''A'' ''Thursday'' ''2:00-4:45'' Lab]
       = Inr [exampleSession ''101'' ''A'' ''Tuesday'' ''09:00-09:50'' Class,
              exampleSession ''OOP'' ''A'' ''Monday'' ''09:00-09:50'' Class,
              exampleSession ''OOP'' ''A'' ''Wednesday'' ''09:00-09:50'' Class,
              exampleSession ''OOP'' ''A'' ''Thursday'' ''2:00-4:45'' Lab]"
proof -
  have "\<exists>out. filterValidSessions exampleClasses = Inr out \<and> filterValidSessions out = Inr out"
    using filterValidSessions_idempotent [of exampleClasses]
    unfolding if_P [OF example_normalised(1)] .
  then obtain out where out: "filterValidSessions exampleClasses = Inr out"
    and again: "filterValidSessions out = Inr out"
    by blast
  have "out = [exampleSession ''101'' ''A'' ''Tuesday'' ''09:00-09:50'' Class,
               exampleSession ''OOP'' ''A'' ''Monday'' ''09:00-09:50'' Class,
               exampleSession ''OOP'' ''A'' ''Wednesday'' ''09:00-09:50'' Class,
               exampleSession ''OOP'' ''A'' ''Thursday'' ''2:00-4:45'' Lab]"
    using out unfolding example_normalised(2) by simp
  then show ?thesis
    using example_normalised again by simp
qed

section \<open>A course without an available section\<close>





section \<open>The minimum number of clashes\<close>









end
